theory Spec2Isabelle
  imports Complex_Main "HOL-Library.Word"
begin

unbundle bit_operations_syntax

section \<open>Python values and errors\<close>

text \<open>
  Exceptions of the program and of its libraries are values: a function that can raise
  returns \<open>py_error + 'a\<close>, with \<open>Inl\<close> for the exception.
\<close>

datatype py_error = TypeError | IndexError | FileNotFoundError | CvError | TesseractError

definition bind_err :: "'e + 'a \<Rightarrow> ('a \<Rightarrow> 'e + 'b) \<Rightarrow> 'e + 'b" where
  "bind_err m f = (case m of Inl e \<Rightarrow> Inl e | Inr v \<Rightarrow> f v)"

section \<open>String similarity: \<open>Levenshtein.ratio\<close>\<close>

text \<open>
  A string is a \<open>string\<close>, one \<open>char\<close> for each code point; the code points are
  those below 256. \<open>str.lower\<close> maps the letters A to Z, and the capital letters of the
  upper half (192 to 222, but for the multiplication sign 215), to the letter 32 places
  later, and leaves every other character alone.
\<close>

definition lower_char :: "char \<Rightarrow> char" where
  "lower_char c =
     (let n = (of_char c :: nat) in
      if (65 \<le> n \<and> n \<le> 90) \<or> (192 \<le> n \<and> n \<le> 222 \<and> n \<noteq> 215)
      then char_of (n + 32) else c)"

definition lower :: "string \<Rightarrow> string" where
  "lower s = map lower_char s"

text \<open>
  The library's \<open>ratio(s1, s2, score_cutoff)\<close> is the normalized indel similarity
  \<open>1 - distance / (len1 + len2)\<close>, where the indel distance is the least number of
  insertions and deletions that turn one sequence into the other, and 1 for two empty
  strings; with a \<open>score_cutoff\<close>, a ratio below the cutoff is returned as 0.
  Floats are exact rationals here.
\<close>

fun indel_distance :: "'a list \<Rightarrow> 'a list \<Rightarrow> nat" where
  "indel_distance [] ys = length ys"
| "indel_distance (x # xs) [] = Suc (length xs)"
| "indel_distance (x # xs) (y # ys) =
     (if x = y then indel_distance xs ys
      else Suc (min (indel_distance xs (y # ys)) (indel_distance (x # xs) ys)))"

definition lv_ratio :: "string \<Rightarrow> string \<Rightarrow> rat" where
  "lv_ratio s1 s2 =
     (let maximum = length s1 + length s2;
          dist = indel_distance s1 s2;
          norm_dist = (if maximum = 0 then 0 else of_nat dist / of_nat maximum)
      in 1 - norm_dist)"

definition lv_ratio_cutoff :: "string \<Rightarrow> string \<Rightarrow> rat \<Rightarrow> rat" where
  "lv_ratio_cutoff s1 s2 score_cutoff =
     (let norm_sim = lv_ratio s1 s2 in if score_cutoff \<le> norm_sim then norm_sim else 0)"

text \<open>Python's truth value of a float: every number but 0 is true.\<close>

definition truthy :: "rat \<Rightarrow> bool" where
  "truthy r = (r \<noteq> 0)"

section \<open>\<open>hasMatchingPhrase\<close>\<close>

text \<open>The inner loop over the search strings; \<open>True\<close> is the early \<open>return True\<close>.\<close>

fun searchStrings_loop :: "string \<Rightarrow> string list \<Rightarrow> bool" where
  "searchStrings_loop phrase [] = False"
| "searchStrings_loop phrase (s # ss) =
     (if truthy (lv_ratio_cutoff (lower phrase) s (9 / 10)) then True
      else searchStrings_loop phrase ss)"

fun hasMatchingPhrase :: "string list \<Rightarrow> string list \<Rightarrow> bool" where
  "hasMatchingPhrase [] searchStrings = False"
| "hasMatchingPhrase (phrase # phrases) searchStrings =
     (if searchStrings_loop phrase searchStrings then True
      else hasMatchingPhrase phrases searchStrings)"

text \<open>
  The same two loops with the calls of \<open>ratio\<close> made visible: the result and, in order,
  the pairs (phrase, search string) that were compared before the function returned.
\<close>

fun searchStrings_calls :: "string \<Rightarrow> string list \<Rightarrow> bool \<times> (string \<times> string) list" where
  "searchStrings_calls phrase [] = (False, [])"
| "searchStrings_calls phrase (s # ss) =
     (if truthy (lv_ratio_cutoff (lower phrase) s (9 / 10)) then (True, [(phrase, s)])
      else (case searchStrings_calls phrase ss of (r, calls) \<Rightarrow> (r, (phrase, s) # calls)))"

fun hasMatchingPhrase_calls :: "string list \<Rightarrow> string list \<Rightarrow> bool \<times> (string \<times> string) list" where
  "hasMatchingPhrase_calls [] searchStrings = (False, [])"
| "hasMatchingPhrase_calls (phrase # phrases) searchStrings =
     (case searchStrings_calls phrase searchStrings of
        (True, calls) \<Rightarrow> (True, calls)
      | (False, calls) \<Rightarrow>
          (case hasMatchingPhrase_calls phrases searchStrings of
             (r, calls') \<Rightarrow> (r, calls @ calls')))"

text \<open>A pair (phrase, search string) whose ratio reaches the cutoff.\<close>

definition meets_cutoff :: "string \<times> string \<Rightarrow> bool" where
  "meets_cutoff pw = (9 / 10 \<le> lv_ratio (lower (fst pw)) (snd pw))"

section \<open>The watch-list file: \<open>getSearchStrings\<close>\<close>

text \<open>
  \<open>str.splitlines\<close>: the text is cut at every line boundary (line feed, carriage return,
  carriage return followed by line feed, vertical tab, form feed, file, group and record
  separator, next line), the boundaries are dropped, and a last line without a boundary
  is kept only when it is not empty. The first argument is the line read so far,
  reversed.
\<close>

definition is_linebreak :: "char \<Rightarrow> bool" where
  "is_linebreak c = ((of_char c :: nat) \<in> {10, 11, 12, 13, 28, 29, 30, 133})"

fun splitlines_from :: "string \<Rightarrow> string \<Rightarrow> string list" where
  "splitlines_from cur [] = (if cur = [] then [] else [rev cur])"
| "splitlines_from cur (c # cs) =
     (if (of_char c :: nat) = 13 then
        (case cs of
           [] \<Rightarrow> [rev cur]
         | d # ds \<Rightarrow>
             if (of_char d :: nat) = 10 then rev cur # splitlines_from [] ds
             else rev cur # splitlines_from [] cs)
      else if is_linebreak c then rev cur # splitlines_from [] cs
      else splitlines_from (c # cur) cs)"

definition splitlines :: "string \<Rightarrow> string list" where
  "splitlines s = splitlines_from [] s"

text \<open>
  The file system is a map from file names to the text that \<open>read\<close> returns; opening a
  name that is not there raises.
\<close>

definition getSearchStrings :: "(string \<rightharpoonup> string) \<Rightarrow> string \<Rightarrow> py_error + string list" where
  "getSearchStrings files fileName =
     (case files fileName of
        None \<Rightarrow> Inl FileNotFoundError
      | Some content \<Rightarrow> Inr (splitlines content))"

section \<open>Colour bounds: \<open>getHSVBounds\<close>\<close>

text \<open>
  \<open>numpy.array\<close> takes the object to convert first and a data type second. Called with
  one list it gives a one-dimensional array, with one number a zero-dimensional one;
  a number in the place of the data type, or a third positional argument, raises
  \<open>TypeError\<close>.
\<close>

datatype py_arg = PyInt int | PyList "int list"

datatype ndarray = Array0 int | Array1 "int list"

fun np_array :: "py_arg list \<Rightarrow> py_error + ndarray" where
  "np_array [PyList xs] = Inr (Array1 xs)"
| "np_array [PyInt n] = Inr (Array0 n)"
| "np_array args = Inl TypeError"

definition getHSVBounds :: "string \<Rightarrow> py_error + ndarray \<times> ndarray" where
  "getHSVBounds mode =
     (if mode = ''sextants'' then
        bind_err (np_array [PyList [102, 57, 180]]) (\<lambda>lower.
        bind_err (np_array [PyList [103, 61, 255]]) (\<lambda>upper.
        Inr (lower, upper)))
      else if mode = ''equipment'' then
        bind_err (np_array [PyList [120, 119, 165]]) (\<lambda>lower.
        bind_err (np_array [PyList [121, 123, 255]]) (\<lambda>upper.
        Inr (lower, upper)))
      else
        bind_err (np_array [PyList [0, 0, 0]]) (\<lambda>lower.
        bind_err (np_array [PyInt 255, PyInt 255, PyInt 255]) (\<lambda>upper.
        Inr (lower, upper))))"

section \<open>Images and the external collaborators\<close>

type_synonym 'a image = "'a list list"
type_synonym bgra = "8 word \<times> 8 word \<times> 8 word \<times> 8 word"
type_synonym hsv = "8 word \<times> 8 word \<times> 8 word"
type_synonym mask = "8 word image"
type_synonym rect = "nat \<times> nat \<times> nat \<times> nat"

text \<open>
  \<open>findContours\<close> returns two values (contours, hierarchy) in some versions of the
  library and three (image, contours, hierarchy) in others.
\<close>

datatype 'c contours_result =
    Result2 "'c list" "int list list"
  | Result3 mask "'c list" "int list list"

text \<open>
  The library functions whose results the program only passes on are parameters: the
  colour conversion of one pixel, the blur, the inverted Otsu threshold, the dilation,
  the contour tracing, the bounding rectangle \<open>(x, y, w, h)\<close> of a contour, the text
  recognition of one region (which may raise), and what each monitor shows.
\<close>

record ('px, 'c) collaborators =
  cvtColor :: "'px \<Rightarrow> hsv"
  GaussianBlur :: "mask \<Rightarrow> mask"
  threshold :: "mask \<Rightarrow> mask"
  dilate :: "mask \<Rightarrow> mask"
  findContours :: "mask \<Rightarrow> 'c contours_result"
  boundingRect :: "'c \<Rightarrow> rect"
  image_to_string :: "mask \<Rightarrow> py_error + string"
  monitors :: "'px image list"

definition getScreenshot :: "('px, 'c) collaborators \<Rightarrow> nat \<Rightarrow> py_error + 'px image" where
  "getScreenshot env monitor =
     (if monitor < length (monitors env) then Inr (monitors env ! monitor)
      else Inl IndexError)"

section \<open>Colour isolation: \<open>getIsolatedText\<close>\<close>

text \<open>
  \<open>inRange\<close> on a three-channel image with three-element bounds: 255 where every
  channel lies between its bounds, both ends included, 0 elsewhere. Bounds of another
  shape are never passed by this program; the model refuses them.
\<close>

definition in_bounds :: "int list \<Rightarrow> int list \<Rightarrow> hsv \<Rightarrow> bool" where
  "in_bounds lo up p =
     (case p of (h, s, v) \<Rightarrow>
        lo ! 0 \<le> uint h \<and> uint h \<le> up ! 0 \<and>
        lo ! 1 \<le> uint s \<and> uint s \<le> up ! 1 \<and>
        lo ! 2 \<le> uint v \<and> uint v \<le> up ! 2)"

fun inRange :: "hsv image \<Rightarrow> ndarray \<Rightarrow> ndarray \<Rightarrow> py_error + mask" where
  "inRange src (Array1 lo) (Array1 up) =
     (if length lo = 3 \<and> length up = 3
      then Inr (map (map (\<lambda>p. if in_bounds lo up p then 255 else 0)) src)
      else Inl CvError)"
| "inRange src lowerb upperb = Inl CvError"

definition bitwise_not :: "mask \<Rightarrow> mask" where
  "bitwise_not m = map (map (\<lambda>v. NOT v)) m"

definition getIsolatedText :: "('px, 'c) collaborators \<Rightarrow> 'px image \<Rightarrow> py_error + mask" where
  "getIsolatedText env img =
     bind_err (getHSVBounds ''equipment'') (\<lambda>(lower, upper).
       let hsv = map (map (cvtColor env)) img in
       bind_err (inRange hsv lower upper) (\<lambda>msk.
       Inr (bitwise_not msk)))"

section \<open>Region extraction: \<open>getPhraseROIs\<close>\<close>

text \<open>The slice \<open>mask[y:y+h, x:x+w]\<close> of the mask \<open>msk\<close>.\<close>

definition crop :: "mask \<Rightarrow> rect \<Rightarrow> mask" where
  "crop msk r =
     (case r of (x, y, w, h) \<Rightarrow> map (\<lambda>row. take w (drop x row)) (take h (drop y msk)))"

definition unpack_contours :: "'c contours_result \<Rightarrow> 'c list" where
  "unpack_contours cnts = (case cnts of Result2 cs hier \<Rightarrow> cs | Result3 im cs hier \<Rightarrow> cs)"

text \<open>Lines 81 to 87: the contours of the processed mask, sorted by the left edge.\<close>

definition sorted_contours :: "('px, 'c) collaborators \<Rightarrow> mask \<Rightarrow> 'c list" where
  "sorted_contours env msk =
     (let blurredImg = GaussianBlur env msk;
          thresh = threshold env blurredImg;
          dil = dilate env thresh;
          cnts = unpack_contours (findContours env dil)
      in sort_key (\<lambda>x. fst (boundingRect env x)) cnts)"

text \<open>The filtering loop; \<open>rois\<close> is the list built so far.\<close>

fun rois_loop :: "('px, 'c) collaborators \<Rightarrow> mask \<Rightarrow> 'c list \<Rightarrow> mask list \<Rightarrow> mask list" where
  "rois_loop env msk [] rois = rois"
| "rois_loop env msk (c # cnts) rois =
     (case boundingRect env c of (x, y, w, h) \<Rightarrow>
        if 20 < h \<and> 200 < w then rois_loop env msk cnts (rois @ [crop msk (x, y, w, h)])
        else rois_loop env msk cnts rois)"

definition getPhraseROIs :: "('px, 'c) collaborators \<Rightarrow> 'px image \<Rightarrow> py_error + mask list" where
  "getPhraseROIs env img =
     bind_err (getIsolatedText env img) (\<lambda>msk.
       Inr (rois_loop env msk (sorted_contours env msk) []))"

section \<open>Recognition and the pipeline: \<open>getPhraseStrings\<close>, \<open>runOCR\<close>\<close>

text \<open>The loop has no handler: an exception of the recognizer leaves it at once.\<close>

fun phrases_loop :: "(mask \<Rightarrow> py_error + string) \<Rightarrow> mask list \<Rightarrow> string list \<Rightarrow> py_error + string list" where
  "phrases_loop recognize [] phrases = Inr phrases"
| "phrases_loop recognize (roi # rois) phrases =
     (case recognize roi of
        Inl e \<Rightarrow> Inl e
      | Inr text \<Rightarrow> phrases_loop recognize rois (phrases @ [text]))"

definition getPhraseStrings :: "('px, 'c) collaborators \<Rightarrow> 'px image \<Rightarrow> py_error + string list" where
  "getPhraseStrings env img =
     bind_err (getPhraseROIs env img) (\<lambda>rois.
       phrases_loop (image_to_string env) rois [])"

text \<open>
  The only effect of a run is the call of \<open>playsound\<close>; the state is the list of these
  calls so far, each with the clip's name and its \<open>block\<close> argument.
\<close>

datatype sound = PlaySound string bool

definition runOCR ::
  "('px, 'c) collaborators \<Rightarrow> string list \<Rightarrow> sound list \<Rightarrow> (py_error + unit) \<times> sound list" where
  "runOCR env searchStrings played =
     (case getScreenshot env 2 of
        Inl e \<Rightarrow> (Inl e, played)
      | Inr img \<Rightarrow>
          (case getPhraseStrings env img of
             Inl e \<Rightarrow> (Inl e, played)
           | Inr phrases \<Rightarrow>
               if hasMatchingPhrase phrases searchStrings
               then (Inr (), played @ [PlaySound ''quiet_alert.mp3'' False])
               else (Inr (), played)))"

section \<open>Synthetic collaborators\<close>

text \<open>
  Stand-ins for the libraries, to run the pipeline on concrete frames. The colour
  conversion is the library's documented one for 8-bit images: value is the largest
  channel, saturation is 255 times the spread over the value, hue is half the angle in
  degrees, each rounded to the nearest integer.
\<close>

definition bgr2hsv_8u :: "bgra \<Rightarrow> hsv" where
  "bgr2hsv_8u px =
     (case px of (b, g, r, a) \<Rightarrow>
        let bi = uint b; gi = uint g; ri = uint r;
            v = max bi (max gi ri);
            diff = v - min bi (min gi ri);
            s = (if v = 0 then 0 else (2 * 255 * diff + v) div (2 * v));
            hn = (if v = ri then gi - bi
                  else if v = gi then bi - ri + 2 * diff
                  else ri - gi + 4 * diff);
            h0 = (if diff = 0 then 0 else (2 * 30 * hn + diff) div (2 * diff));
            h = (if h0 < 0 then h0 + 180 else h0)
        in (word_of_int h, word_of_int s, word_of_int v))"

text \<open>The bounding rectangle of a contour given by its points: left, top, width, height.\<close>

definition points_rect :: "(nat \<times> nat) list \<Rightarrow> rect" where
  "points_rect pts =
     (case pts of
        [] \<Rightarrow> (0, 0, 0, 0)
      | p # ps \<Rightarrow>
          let x0 = fold min (map fst ps) (fst p); x1 = fold max (map fst ps) (fst p);
              y0 = fold min (map snd ps) (snd p); y1 = fold max (map snd ps) (snd p)
          in (x0, y0, x1 - x0 + 1, y1 - y0 + 1))"

text \<open>
  A frame of 600 by 30 pixels of one colour on each of three monitors, a contour stage
  that reports given contours, and a given recognizer.
\<close>

definition uniform_frame :: "bgra \<Rightarrow> bgra image" where
  "uniform_frame px = replicate 30 (replicate 600 px)"

definition synthetic_env ::
  "bgra \<Rightarrow> (nat \<times> nat) list list \<Rightarrow> (mask \<Rightarrow> py_error + string)
     \<Rightarrow> (bgra, (nat \<times> nat) list) collaborators" where
  "synthetic_env px cnts recognize =
     \<lparr> cvtColor = bgr2hsv_8u,
       GaussianBlur = (\<lambda>m. m),
       threshold = bitwise_not,
       dilate = (\<lambda>m. m),
       findContours = (\<lambda>m. Result2 cnts []),
       boundingRect = points_rect,
       image_to_string = recognize,
       monitors = [uniform_frame px, uniform_frame px, uniform_frame px] \<rparr>"



section \<open>Facts about the similarity ratio\<close>

lemma indel_distance_le: "indel_distance xs ys \<le> length xs + length ys"
  by (induction xs ys rule: indel_distance.induct) auto

lemma indel_distance_same: "indel_distance xs xs = 0"
  by (induction xs) auto

lemma indel_distance_Nil2: "indel_distance xs [] = length xs"
  by (cases xs) simp_all

lemma indel_distance_sym: "indel_distance xs ys = indel_distance ys xs"
  by (induction xs ys rule: indel_distance.induct) (auto simp: min.commute indel_distance_Nil2)

lemma indel_distance_cons_aux:
  "indel_distance (xs :: 'a list) (y # ys) \<le> Suc (indel_distance xs ys)
     \<and> indel_distance xs ys \<le> Suc (indel_distance (x # xs) ys)"
proof (induction "length xs + length ys" arbitrary: xs ys x y rule: less_induct)
  case less
  have A: "indel_distance us (v # vs) \<le> Suc (indel_distance us vs)"
    if "length us + length vs < length xs + length ys" for us vs :: "'a list" and v
    using less [OF that] by blast
  have B: "indel_distance us vs \<le> Suc (indel_distance (u # us) vs)"
    if "length us + length vs < length xs + length ys" for us vs :: "'a list" and u
    using less [OF that] by blast
  have "indel_distance xs (y # ys) \<le> Suc (indel_distance xs ys)"
  proof (cases xs)
    case Nil
    then show ?thesis by simp
  next
    case (Cons a xs')
    then have "length xs' + length ys < length xs + length ys" by simp
    from B [OF this, of a] Cons show ?thesis by auto
  qed
  moreover have "indel_distance xs ys \<le> Suc (indel_distance (x # xs) ys)"
  proof (cases ys)
    case Nil
    then show ?thesis by (simp add: indel_distance_Nil2)
  next
    case (Cons b ys')
    then have small: "length xs + length ys' < length xs + length ys" by simp
    from A [OF small, of b] B [OF small, of x] Cons show ?thesis
      by (auto simp: min_def)
  qed
  ultimately show ?case by blast
qed

lemma indel_distance_insert: "indel_distance xs (y # ys) \<le> Suc (indel_distance xs ys)"
  using indel_distance_cons_aux [of xs y ys] by blast

lemma indel_distance_drop: "indel_distance xs ys \<le> Suc (indel_distance (x # xs) ys)"
  using indel_distance_cons_aux [of xs _ ys x] by blast

text \<open>
  The distance obeys the recurrence of the least edit script, in which equal heads may
  also be deleted and inserted: keeping them is never worse.
\<close>

lemma indel_distance_recurrence:
  "indel_distance (x # xs) (y # ys) =
     min (if x = y then indel_distance xs ys else Suc (Suc (indel_distance xs ys)))
         (Suc (min (indel_distance xs (y # ys)) (indel_distance (x # xs) ys)))"
proof (cases "x = y")
  case True
  have "indel_distance ys xs \<le> Suc (indel_distance (y # ys) xs)"
    by (rule indel_distance_drop)
  then have "indel_distance xs ys \<le> Suc (indel_distance xs (y # ys))"
    by (simp only: indel_distance_sym [of xs])
  moreover have "indel_distance xs ys \<le> Suc (indel_distance (x # xs) ys)"
    by (rule indel_distance_drop)
  ultimately show ?thesis using True by (simp add: min_def)
next
  case False
  have "indel_distance xs (y # ys) \<le> Suc (indel_distance xs ys)"
    by (rule indel_distance_insert)
  then show ?thesis using False by (simp add: min_def)
qed
lemma lv_ratio_range: "0 \<le> lv_ratio s1 s2 \<and> lv_ratio s1 s2 \<le> 1"
proof (cases "length s1 + length s2 = 0")
  case True
  then show ?thesis by (simp add: lv_ratio_def)
next
  case False
  then have "0 < length s1 + length s2"
    by simp
  then have pos: "(0 :: rat) < of_nat (length s1 + length s2)"
    by (simp only: of_nat_0_less_iff)
  have "(of_nat (indel_distance s1 s2) :: rat) \<le> of_nat (length s1 + length s2)"
    by (simp only: of_nat_le_iff indel_distance_le)
  with pos have "(of_nat (indel_distance s1 s2) :: rat) / of_nat (length s1 + length s2) \<le> 1"
    by (simp only: divide_le_eq_1_pos)
  moreover have "(0 :: rat) \<le> of_nat (indel_distance s1 s2) / of_nat (length s1 + length s2)"
    by (simp del: of_nat_add)
  ultimately show ?thesis using False
    by (simp add: lv_ratio_def Let_def del: of_nat_add)
qed

lemma indel_distance_zero: "indel_distance xs ys = 0 \<longleftrightarrow> xs = ys"
  by (induction xs ys rule: indel_distance.induct) auto

lemma lv_ratio_empty: "lv_ratio [] [] = 1"
  by (simp add: lv_ratio_def)

lemma truthy_cutoff:
  "truthy (lv_ratio_cutoff a b (9 / 10)) = (9 / 10 \<le> lv_ratio a b)"
  by (auto simp: truthy_def lv_ratio_cutoff_def Let_def)

lemma lower_char_idem: "lower_char (lower_char c) = lower_char c"
  by (simp add: lower_char_def Let_def)

lemma lower_idem: "lower (lower s) = lower s"
  by (simp add: lower_def lower_char_idem)

section \<open>The matcher\<close>

lemma searchStrings_loop_iff:
  "searchStrings_loop p ws = (\<exists>w\<in>set ws. meets_cutoff (p, w))"
  by (induction ws) (auto simp: truthy_cutoff meets_cutoff_def)

lemma hasMatchingPhrase_iff:
  "hasMatchingPhrase ps ws = (\<exists>p\<in>set ps. \<exists>w\<in>set ws. meets_cutoff (p, w))"
  by (induction ps) (auto simp: searchStrings_loop_iff)

lemma searchStrings_calls_eq:
  "searchStrings_calls p ws =
     (searchStrings_loop p ws,
      takeWhile (\<lambda>pw. \<not> meets_cutoff pw) (map (Pair p) ws)
        @ take 1 (dropWhile (\<lambda>pw. \<not> meets_cutoff pw) (map (Pair p) ws)))"
  by (induction ws) (auto simp: truthy_cutoff meets_cutoff_def)

text \<open>The list up to and including the first element with a property, under append.\<close>

lemma first_hit_append_none:
  "\<forall>x\<in>set xs. \<not> P x \<Longrightarrow>
     takeWhile (\<lambda>x. \<not> P x) (xs @ ys) @ take 1 (dropWhile (\<lambda>x. \<not> P x) (xs @ ys))
       = xs @ takeWhile (\<lambda>x. \<not> P x) ys @ take 1 (dropWhile (\<lambda>x. \<not> P x) ys)"
  by (induction xs) auto

lemma first_hit_append_some:
  "\<exists>x\<in>set xs. P x \<Longrightarrow>
     takeWhile (\<lambda>x. \<not> P x) (xs @ ys) @ take 1 (dropWhile (\<lambda>x. \<not> P x) (xs @ ys))
       = takeWhile (\<lambda>x. \<not> P x) xs @ take 1 (dropWhile (\<lambda>x. \<not> P x) xs)"
  by (induction xs) auto

lemma first_hit_none:
  "\<forall>x\<in>set xs. \<not> P x \<Longrightarrow>
     takeWhile (\<lambda>x. \<not> P x) xs @ take 1 (dropWhile (\<lambda>x. \<not> P x) xs) = xs"
  by (induction xs) auto

lemma hasMatchingPhrase_calls_eq:
  "hasMatchingPhrase_calls ps ws =
     (hasMatchingPhrase ps ws,
      takeWhile (\<lambda>pw. \<not> meets_cutoff pw) (List.product ps ws)
        @ take 1 (dropWhile (\<lambda>pw. \<not> meets_cutoff pw) (List.product ps ws)))"
proof (induction ps)
  case Nil
  show ?case by simp
next
  case (Cons p ps)
  show ?case
  proof (cases "searchStrings_loop p ws")
    case True
    then have "\<exists>x\<in>set (map (Pair p) ws). meets_cutoff x"
      by (auto simp: searchStrings_loop_iff)
    from first_hit_append_some [OF this] True show ?thesis
      by (simp add: searchStrings_calls_eq)
  next
    case False
    then have none: "\<forall>x\<in>set (map (Pair p) ws). \<not> meets_cutoff x"
      by (auto simp: searchStrings_loop_iff)
    from first_hit_append_none [OF none] first_hit_none [OF none] False Cons.IH
    show ?thesis
      by (simp add: searchStrings_calls_eq)
  qed
qed

text \<open>
  Claim C1. \<open>hasMatchingPhrase\<close> returns true exactly when some pair (candidate, target)
  of the cross product has a similarity ratio, between the lower-cased candidate and the
  target, of at least 0.90. The pairs it compares are those of the cross product in
  candidate-major order up to and including the first pair that meets the cutoff, and no
  pair after it; it returns false when a list is empty.
\<close>

theorem hasMatchingPhrase_cross_product:
  "hasMatchingPhrase ps ws = (\<exists>p\<in>set ps. \<exists>w\<in>set ws. 9 / 10 \<le> lv_ratio (lower p) w)
   \<and> hasMatchingPhrase_calls ps ws =
       (hasMatchingPhrase ps ws,
        takeWhile (\<lambda>pw. \<not> meets_cutoff pw) (List.product ps ws)
          @ take 1 (dropWhile (\<lambda>pw. \<not> meets_cutoff pw) (List.product ps ws)))
   \<and> \<not> hasMatchingPhrase [] ws \<and> \<not> hasMatchingPhrase ps []"
proof -
  have "hasMatchingPhrase ps ws = (\<exists>p\<in>set ps. \<exists>w\<in>set ws. 9 / 10 \<le> lv_ratio (lower p) w)"
    by (simp add: hasMatchingPhrase_iff meets_cutoff_def)
  moreover have "\<not> hasMatchingPhrase ps []"
    by (simp add: hasMatchingPhrase_iff)
  ultimately show ?thesis
    by (simp add: hasMatchingPhrase_calls_eq)
qed

theorem hasMatchingPhrase_cross_product_witness:
  "hasMatchingPhrase [''xy'', ''AB'', ''ab''] [''cd'', ''ab'', ''zz'']
   \<and> hasMatchingPhrase_calls [''xy'', ''AB'', ''ab''] [''cd'', ''ab'', ''zz''] =
       (True, [(''xy'', ''cd''), (''xy'', ''ab''), (''xy'', ''zz''), (''AB'', ''cd''), (''AB'', ''ab'')])
   \<and> \<not> hasMatchingPhrase [''xy''] [''cd'', ''ab'']"
  using hasMatchingPhrase_cross_product [of "[''xy'', ''AB'', ''ab'']" "[''cd'', ''ab'', ''zz'']"]
        hasMatchingPhrase_cross_product [of "[''xy'']" "[''cd'', ''ab'']"]
  by code_simp

lemma meets_cutoff_lower: "meets_cutoff (lower p, w) = meets_cutoff (p, w)"
  by (simp add: meets_cutoff_def lower_idem)

lemma indel_distance_disjoint:
  "set xs \<inter> set ys = {} \<Longrightarrow> indel_distance xs ys = length xs + length ys"
  by (induction xs ys rule: indel_distance.induct) auto

text \<open>A string of capital letters shares no character with its lower-case form.\<close>

lemma lower_disjoint:
  assumes "\<forall>c\<in>set w. lower_char c \<noteq> c"
  shows "set (lower w) \<inter> set w = {}"
proof -
  have "lower_char x = x" if "x \<in> set (lower w)" for x
    using that by (auto simp: lower_def lower_char_idem)
  with assms show ?thesis by auto
qed

lemma capitals_no_match:
  assumes "w \<noteq> []" and "\<forall>c\<in>set w. lower_char c \<noteq> c"
  shows "\<not> hasMatchingPhrase [lower w] [w]" and "hasMatchingPhrase [lower w] (map lower [w])"
proof -
  have "indel_distance (lower w) w = length (lower w) + length w"
    by (rule indel_distance_disjoint) (rule lower_disjoint [OF assms(2)])
  then have "lv_ratio (lower w) w = 0"
    using assms(1) by (simp add: lv_ratio_def Let_def lower_def)
  then show "\<not> hasMatchingPhrase [lower w] [w]"
    by (simp add: hasMatchingPhrase_iff meets_cutoff_def lower_idem)
  have "lv_ratio (lower w) (lower w) = 1"
    by (simp add: lv_ratio_def Let_def indel_distance_same)
  then show "hasMatchingPhrase [lower w] (map lower [w])"
    by (simp add: hasMatchingPhrase_iff meets_cutoff_def lower_idem)
qed

lemma map_capitals: "''MAP'' \<noteq> [] \<and> (\<forall>c\<in>set ''MAP''. lower_char c \<noteq> c)"
  by code_simp

lemma lower_MAP: "lower ''MAP'' = ''map''"
  by code_simp

text \<open>
  Claim C8, as the program has it. The match is case-insensitive in the candidates and
  case-sensitive in the watch-list. Lower-casing the candidates beforehand changes
  nothing, because the candidate is lower-cased when it is compared. Each watch-list
  entry is compared as it was loaded: the result is true exactly when the ratio between
  some lower-cased candidate and some entry as written reaches 0.90. So lower-casing the
  watch-list leaves the result alone whenever its entries are lower-case already, and it
  changes the result for every non-empty entry written in capital letters only, taken
  with the candidate that is its lower-case form: no match before, a match after.
\<close>

theorem hasMatchingPhrase_folds_candidates:
  "hasMatchingPhrase (map lower phrases) searchStrings = hasMatchingPhrase phrases searchStrings
   \<and> hasMatchingPhrase phrases searchStrings =
       (\<exists>p\<in>set phrases. \<exists>s\<in>set searchStrings. 9 / 10 \<le> lv_ratio (lower p) s)
   \<and> ((\<forall>s\<in>set searchStrings. lower s = s) \<longrightarrow>
        hasMatchingPhrase phrases (map lower searchStrings) = hasMatchingPhrase phrases searchStrings)
   \<and> (w \<noteq> [] \<and> (\<forall>c\<in>set w. lower_char c \<noteq> c) \<longrightarrow>
        \<not> hasMatchingPhrase [lower w] [w] \<and> hasMatchingPhrase [lower w] (map lower [w]))"
proof (intro conjI impI)
  show "hasMatchingPhrase (map lower phrases) searchStrings = hasMatchingPhrase phrases searchStrings"
    by (simp add: hasMatchingPhrase_iff meets_cutoff_lower)
next
  show "hasMatchingPhrase phrases searchStrings =
       (\<exists>p\<in>set phrases. \<exists>s\<in>set searchStrings. 9 / 10 \<le> lv_ratio (lower p) s)"
    by (simp add: hasMatchingPhrase_iff meets_cutoff_def)
next
  assume "\<forall>s\<in>set searchStrings. lower s = s"
  then show "hasMatchingPhrase phrases (map lower searchStrings) = hasMatchingPhrase phrases searchStrings"
    by (simp add: map_idI)
next
  assume "w \<noteq> [] \<and> (\<forall>c\<in>set w. lower_char c \<noteq> c)"
  then show "\<not> hasMatchingPhrase [lower w] [w]"
    using capitals_no_match(1) [of w] by blast
next
  assume "w \<noteq> [] \<and> (\<forall>c\<in>set w. lower_char c \<noteq> c)"
  then show "hasMatchingPhrase [lower w] (map lower [w])"
    using capitals_no_match(2) [of w] by blast
qed

theorem hasMatchingPhrase_folds_candidates_witness:
  "hasMatchingPhrase (map lower [''MAP'']) [''map''] = hasMatchingPhrase [''MAP''] [''map'']
   \<and> hasMatchingPhrase [''MAP''] (map lower [''map'']) = hasMatchingPhrase [''MAP''] [''map'']
   \<and> hasMatchingPhrase [''MAP''] [''map'']
   \<and> \<not> hasMatchingPhrase [''map''] [''MAP'']
   \<and> hasMatchingPhrase [''map''] (map lower [''MAP''])"
  using hasMatchingPhrase_folds_candidates [of "[''MAP'']" "[''map'']" "''MAP''"] map_capitals
  by (simp add: lower_MAP) code_simp

text \<open>
  The claim as it was stated fails: the candidate \<open>map\<close> does not match the watch-list
  entry \<open>Map\<close>, and matches it once the watch-list is lower-cased.
\<close>

theorem hasMatchingPhrase_watch_list_case:
  "\<not> hasMatchingPhrase [''map''] [''Map'']
   \<and> hasMatchingPhrase [''map''] (map lower [''Map''])"
  by code_simp

section \<open>Colour bounds\<close>

text \<open>
  Claim C7. The claim asks that every mode name other than \<open>sextants\<close> and
  \<open>equipment\<close> gives the widest range, lower bound (0,0,0) and upper bound
  (255,255,255). The program builds the upper bound as \<open>np.array(255,255,255)\<close>, which
  raises: for every such mode \<open>getHSVBounds\<close> returns no bounds at all.
\<close>

theorem getHSVBounds_unrecognized_raises:
  "mode \<noteq> ''sextants'' \<Longrightarrow> mode \<noteq> ''equipment'' \<Longrightarrow> getHSVBounds mode = Inl TypeError"
  by (simp add: getHSVBounds_def bind_err_def)

theorem getHSVBounds_unrecognized_raises_witness:
  "getHSVBounds ''maps'' = Inl TypeError"
  using getHSVBounds_unrecognized_raises [of "''maps''"] by simp

lemma getHSVBounds_presets:
  "getHSVBounds ''sextants'' = Inr (Array1 [102, 57, 180], Array1 [103, 61, 255])"
  "getHSVBounds ''equipment'' = Inr (Array1 [120, 119, 165], Array1 [121, 123, 255])"
  by (simp_all add: getHSVBounds_def bind_err_def)

section \<open>Colour isolation\<close>

lemma getIsolatedText_eq:
  "getIsolatedText env img =
     Inr (map (map (\<lambda>px. if in_bounds [120, 119, 165] [121, 123, 255] (cvtColor env px)
                          then 0 else 255)) img)"
  by (simp add: getIsolatedText_def getHSVBounds_def bind_err_def bitwise_not_def o_def
        if_distrib cong: if_cong)

lemma inRange_bitwise_not:
  "length lo = 3 \<Longrightarrow> length up = 3 \<Longrightarrow>
     bind_err (inRange hsv (Array1 lo) (Array1 up)) (\<lambda>m. Inr (bitwise_not m)) =
       Inr (map (map (\<lambda>p. if in_bounds lo up p then 0 else 255)) hsv)"
  by (simp add: bind_err_def bitwise_not_def o_def if_distrib cong: if_cong)

lemma map_map_const:
  "\<forall>row\<in>set img. \<forall>px\<in>set row. f px = c \<Longrightarrow> map (map f) img = map (map (\<lambda>px. c)) img"
  by (induction img) auto

text \<open>
  Claim C2, as the program has it. \<open>getIsolatedText\<close> takes no bounds: it always uses
  those of the mode \<open>equipment\<close>. Every pixel whose HSV value lies inside the bounds, ends
  included on the three channels, becomes 0 (black, the background of the claim) and every
  other pixel 255 (white, the foreground): the output is the complement of the in-range
  mask, and \<open>inRange\<close> followed by \<open>bitwise_not\<close> does the same for every pair of
  three-element bounds. A frame whose pixels are all outside the bounds gives an
  all-foreground mask; one whose pixels are all inside gives an all-background mask.
\<close>

theorem getIsolatedText_complement:
  "getIsolatedText env img =
     Inr (map (map (\<lambda>px. if in_bounds [120, 119, 165] [121, 123, 255] (cvtColor env px)
                          then 0 else 255)) img)
   \<and> (length lo = 3 \<and> length up = 3 \<longrightarrow>
        bind_err (inRange hsv (Array1 lo) (Array1 up)) (\<lambda>m. Inr (bitwise_not m)) =
          Inr (map (map (\<lambda>p. if in_bounds lo up p then 0 else 255)) hsv))
   \<and> ((\<forall>row\<in>set img. \<forall>px\<in>set row.
          \<not> in_bounds [120, 119, 165] [121, 123, 255] (cvtColor env px)) \<longrightarrow>
        getIsolatedText env img = Inr (map (map (\<lambda>px. 255)) img))
   \<and> ((\<forall>row\<in>set img. \<forall>px\<in>set row.
          in_bounds [120, 119, 165] [121, 123, 255] (cvtColor env px)) \<longrightarrow>
        getIsolatedText env img = Inr (map (map (\<lambda>px. 0)) img))"
proof (intro conjI impI)
  show "getIsolatedText env img =
     Inr (map (map (\<lambda>px. if in_bounds [120, 119, 165] [121, 123, 255] (cvtColor env px)
                          then 0 else 255)) img)"
    by (rule getIsolatedText_eq)
next
  assume three: "length lo = 3 \<and> length up = 3"
  show "bind_err (inRange hsv (Array1 lo) (Array1 up)) (\<lambda>m. Inr (bitwise_not m)) =
          Inr (map (map (\<lambda>p. if in_bounds lo up p then 0 else 255)) hsv)"
    by (rule inRange_bitwise_not) (simp_all add: three)
next
  assume "\<forall>row\<in>set img. \<forall>px\<in>set row.
          \<not> in_bounds [120, 119, 165] [121, 123, 255] (cvtColor env px)"
  then have "map (map (\<lambda>px. if in_bounds [120, 119, 165] [121, 123, 255] (cvtColor env px)
                          then 0 else (255 :: 8 word))) img = map (map (\<lambda>px. 255)) img"
    by (intro map_map_const) simp
  then show "getIsolatedText env img = Inr (map (map (\<lambda>px. 255)) img)"
    by (simp only: getIsolatedText_eq)
next
  assume "\<forall>row\<in>set img. \<forall>px\<in>set row.
          in_bounds [120, 119, 165] [121, 123, 255] (cvtColor env px)"
  then have "map (map (\<lambda>px. if in_bounds [120, 119, 165] [121, 123, 255] (cvtColor env px)
                          then 0 else (255 :: 8 word))) img = map (map (\<lambda>px. 0)) img"
    by (intro map_map_const) simp
  then show "getIsolatedText env img = Inr (map (map (\<lambda>px. 0)) img)"
    by (simp only: getIsolatedText_eq)
qed

lemma uniform_white_outside:
  "\<forall>row\<in>set (uniform_frame (255, 255, 255, 255)). \<forall>px\<in>set row.
     \<not> in_bounds [120, 119, 165] [121, 123, 255] (bgr2hsv_8u px)"
  by (simp add: uniform_frame_def bgr2hsv_8u_def in_bounds_def)

theorem getIsolatedText_complement_witness:
  "getIsolatedText (synthetic_env (255, 255, 255, 255) [] (\<lambda>roi. Inr []))
       (uniform_frame (255, 255, 255, 255)) = Inr (replicate 30 (replicate 600 255))
   \<and> bind_err (inRange [[(102, 60, 200), (0, 0, 0)]] (Array1 [102, 57, 180]) (Array1 [103, 61, 255]))
         (\<lambda>m. Inr (bitwise_not m)) = Inr [[0, 255]]"
  using getIsolatedText_complement
          [of "synthetic_env (255, 255, 255, 255) [] (\<lambda>roi. Inr [])"
              "uniform_frame (255, 255, 255, 255)"
              "[102, 57, 180]" "[103, 61, 255]" "[[(102, 60, 200), (0, 0, 0)]]"]
        uniform_white_outside
  by (simp add: synthetic_env_def uniform_frame_def in_bounds_def)

text \<open>
  The claim as it was stated fails in its last part: the pixel with blue 255, green 135
  and red 135 has the HSV value (120, 120, 255), inside the bounds, and the frame made of
  this pixel gives the mask made of 0, the background, not of 255.
\<close>

theorem getIsolatedText_inside_is_background:
  "in_bounds [120, 119, 165] [121, 123, 255] (bgr2hsv_8u (255, 135, 135, 255))
   \<and> getIsolatedText (synthetic_env (255, 135, 135, 255) [] (\<lambda>roi. Inr []))
       [[(255, 135, 135, 255)]] = Inr [[0]]
   \<and> getIsolatedText (synthetic_env (255, 135, 135, 255) [] (\<lambda>roi. Inr []))
       [[(255, 135, 135, 255)]] \<noteq> Inr [[255]]"
  by (simp add: getIsolatedText_eq synthetic_env_def bgr2hsv_8u_def in_bounds_def)

section \<open>Region extraction\<close>

lemma rois_loop_eq:
  "rois_loop env msk cnts rois =
     rois @ map (crop msk)
       (filter (\<lambda>(x, y, w, h). 20 < h \<and> 200 < w) (map (boundingRect env) cnts))"
  by (induction cnts arbitrary: rois) (auto split: prod.splits)

lemma getPhraseROIs_eq:
  "getIsolatedText env img = Inr msk \<Longrightarrow>
     getPhraseROIs env img =
       Inr (map (crop msk)
         (filter (\<lambda>(x, y, w, h). 20 < h \<and> 200 < w)
            (map (boundingRect env) (sorted_contours env msk))))"
  by (simp add: getPhraseROIs_def bind_err_def rois_loop_eq)


lemma white_mask:
  "getIsolatedText (synthetic_env (255, 255, 255, 255) cnts recognize)
     (uniform_frame (255, 255, 255, 255)) = Inr (replicate 30 (replicate 600 255))"
  by (simp add: getIsolatedText_eq synthetic_env_def uniform_frame_def bgr2hsv_8u_def
        in_bounds_def)











text \<open>
  Claim C5. The regions returned are the crops of exactly those contours whose bounding
  rectangle has a height above 20 and a width above 200, one region for each of them and
  none for any other contour, in the order of their left edges.
\<close>

theorem getPhraseROIs_size_filter:
  assumes "getIsolatedText env img = Inr msk"
      and "cnts = unpack_contours (findContours env (dilate env (threshold env (GaussianBlur env msk))))"
  shows "getPhraseROIs env img =
           Inr (map (\<lambda>c. crop msk (boundingRect env c))
             (sort_key (\<lambda>c. fst (boundingRect env c))
               (filter (\<lambda>c. case boundingRect env c of (x, y, w, h) \<Rightarrow> 20 < h \<and> 200 < w) cnts)))"
proof -
  have "filter (\<lambda>(x, y, w, h). 20 < h \<and> 200 < w) (map (boundingRect env) (sorted_contours env msk))
      = map (boundingRect env)
          (filter (\<lambda>c. case boundingRect env c of (x, y, w, h) \<Rightarrow> 20 < h \<and> 200 < w)
             (sorted_contours env msk))"
    by (simp add: filter_map o_def)
  also have "filter (\<lambda>c. case boundingRect env c of (x, y, w, h) \<Rightarrow> 20 < h \<and> 200 < w)
             (sorted_contours env msk)
      = sort_key (\<lambda>c. fst (boundingRect env c))
          (filter (\<lambda>c. case boundingRect env c of (x, y, w, h) \<Rightarrow> 20 < h \<and> 200 < w) cnts)"
    using assms(2) by (simp add: sorted_contours_def Let_def filter_sort)
  finally show ?thesis
    using assms(1) by (simp add: getPhraseROIs_eq o_def)
qed

theorem getPhraseROIs_size_filter_witness:
  "getPhraseROIs
      (synthetic_env (255, 255, 255, 255) [[(50, 2), (299, 26)], [(10, 5), (59, 14)]] (\<lambda>roi. Inr []))
      (uniform_frame (255, 255, 255, 255)) = Inr [replicate 25 (replicate 250 255)]"
  using getPhraseROIs_size_filter
          [OF white_mask [of "[[(50, 2), (299, 26)], [(10, 5), (59, 14)]]" "\<lambda>roi. Inr []"] refl]
  by (simp add: synthetic_env_def unpack_contours_def points_rect_def crop_def)

text \<open>
  Claim C6. The bounding rectangles of the regions returned are in ascending order of
  their x-coordinate, and rectangles with the same x-coordinate keep the order in which
  the contour stage reported them (the sort is stable).
\<close>

theorem getPhraseROIs_left_to_right:
  assumes "getIsolatedText env img = Inr msk"
      and "cnts = unpack_contours (findContours env (dilate env (threshold env (GaussianBlur env msk))))"
      and "rs = filter (\<lambda>(x, y, w, h). 20 < h \<and> 200 < w)
                  (map (boundingRect env) (sort_key (\<lambda>c. fst (boundingRect env c)) cnts))"
  shows "getPhraseROIs env img = Inr (map (crop msk) rs)
       \<and> sorted (map fst rs)
       \<and> (\<forall>k. filter (\<lambda>r. fst r = k) rs =
               filter (\<lambda>r. fst r = k)
                 (filter (\<lambda>(x, y, w, h). 20 < h \<and> 200 < w) (map (boundingRect env) cnts)))"
proof (intro conjI allI)
  show "getPhraseROIs env img = Inr (map (crop msk) rs)"
    using assms by (simp add: getPhraseROIs_eq sorted_contours_def Let_def)
next
  have "sorted (map fst (map (boundingRect env) (sort_key (\<lambda>c. fst (boundingRect env c)) cnts)))"
    by (simp add: o_def)
  then show "sorted (map fst rs)"
    unfolding assms(3) by (rule sorted_filter)
next
  fix k
  let ?keep = "\<lambda>(x :: nat, y :: nat, w :: nat, h :: nat). 20 < h \<and> 200 < w"
  let ?f = "\<lambda>c. fst (boundingRect env c)"
  have at_k: "filter (\<lambda>r. fst r = k) (map (boundingRect env) cs) =
              map (boundingRect env) (filter (\<lambda>c. ?f c = k) cs)" for cs
    by (simp add: filter_map o_def)
  have "filter (\<lambda>r. fst r = k) rs =
          filter ?keep (filter (\<lambda>r. fst r = k) (map (boundingRect env) (sort_key ?f cnts)))"
    unfolding assms(3) by (simp add: conj_commute)
  also have "\<dots> = filter ?keep (map (boundingRect env) (filter (\<lambda>c. ?f c = k) cnts))"
    by (simp only: at_k sort_key_stable)
  also have "\<dots> = filter (\<lambda>r. fst r = k) (filter ?keep (map (boundingRect env) cnts))"
    by (simp add: at_k [symmetric] conj_commute)
  finally show "filter (\<lambda>r. fst r = k) rs =
               filter (\<lambda>r. fst r = k)
                 (filter (\<lambda>(x, y, w, h). 20 < h \<and> 200 < w) (map (boundingRect env) cnts))" .
qed

theorem getPhraseROIs_left_to_right_witness:
  "getPhraseROIs
      (synthetic_env (255, 255, 255, 255) [[(300, 2), (559, 26)], [(10, 2), (259, 26)]] (\<lambda>roi. Inr []))
      (uniform_frame (255, 255, 255, 255))
     = Inr [replicate 25 (replicate 250 255), replicate 25 (replicate 260 255)]
   \<and> sorted (map fst [(10 :: nat, 2 :: nat, 250 :: nat, 25 :: nat), (300, 2, 260, 25)])"
  using getPhraseROIs_left_to_right
          [OF white_mask [of "[[(300, 2), (559, 26)], [(10, 2), (259, 26)]]" "\<lambda>roi. Inr []"]
              refl refl]
  by (simp add: synthetic_env_def unpack_contours_def points_rect_def crop_def)

section \<open>Recognition and the pipeline\<close>

lemma phrases_loop_ok:
  "\<forall>roi\<in>set rois. recognize roi = Inr (f roi) \<Longrightarrow>
     phrases_loop recognize rois phrases = Inr (phrases @ map f rois)"
  by (induction rois arbitrary: phrases) auto

lemma phrases_loop_raise:
  "\<forall>r\<in>set pre. \<exists>t. recognize r = Inr t \<Longrightarrow> recognize roi = Inl e \<Longrightarrow>
     phrases_loop recognize (pre @ roi # post) phrases = Inl e"
  by (induction pre arbitrary: phrases) auto

lemma getPhraseStrings_eq:
  "getPhraseROIs env img = Inr rois \<Longrightarrow>
     getPhraseStrings env img = phrases_loop (image_to_string env) rois []"
  by (simp add: getPhraseStrings_def bind_err_def)

lemma getScreenshot_synthetic:
  "getScreenshot (synthetic_env px cnts recognize) 2 = Inr (uniform_frame px)"
  by (simp add: getScreenshot_def synthetic_env_def)

lemma synthetic_recognize: "image_to_string (synthetic_env px cnts recognize) = recognize"
  by (simp add: synthetic_env_def)

lemma white_rois:
  "getPhraseROIs
      (synthetic_env (255, 255, 255, 255) [[(300, 2), (559, 26)], [(10, 2), (259, 26)]] recognize)
      (uniform_frame (255, 255, 255, 255))
     = Inr [replicate 25 (replicate 250 255), replicate 25 (replicate 260 255)]"
  using getPhraseROIs_eq
          [OF white_mask [of "[[(300, 2), (559, 26)], [(10, 2), (259, 26)]]" recognize]]
  by (simp add: sorted_contours_def synthetic_env_def unpack_contours_def points_rect_def crop_def)

lemma strongbox_phrases:
  "getPhraseStrings
      (synthetic_env (255, 255, 255, 255) [[(300, 2), (559, 26)], [(10, 2), (259, 26)]]
        (\<lambda>roi. Inr ''Strongbox''))
      (uniform_frame (255, 255, 255, 255)) = Inr [''Strongbox'', ''Strongbox'']"
  by (simp add: getPhraseStrings_eq [OF white_rois] synthetic_recognize)

lemma strongbox_match: "hasMatchingPhrase [''Strongbox'', ''Strongbox''] [''map'', ''strongbox'']"
  by code_simp

lemma strongbox_no_match: "\<not> hasMatchingPhrase [''Strongbox'', ''Strongbox''] [''map'']"
  by code_simp

text \<open>
  Claim C3. In every run the calls of the alert are the earlier ones followed by exactly
  one new call, with \<open>block=False\<close>, when the frame was captured, its phrases were
  recognized and they match the watch-list, and by no new call otherwise; a run whose
  phrases do not match returns with the state unchanged.
\<close>

theorem runOCR_alert_once:
  "snd (runOCR env searchStrings played) =
     played @ (if (\<exists>img phrases. getScreenshot env 2 = Inr img
                     \<and> getPhraseStrings env img = Inr phrases
                     \<and> hasMatchingPhrase phrases searchStrings)
               then [PlaySound ''quiet_alert.mp3'' False] else [])
   \<and> (\<forall>img phrases. getScreenshot env 2 = Inr img \<and> getPhraseStrings env img = Inr phrases
         \<and> \<not> hasMatchingPhrase phrases searchStrings
         \<longrightarrow> runOCR env searchStrings played = (Inr (), played))"
  by (auto simp: runOCR_def split: sum.splits)

theorem runOCR_alert_once_witness:
  "snd (runOCR (synthetic_env (255, 255, 255, 255) [[(300, 2), (559, 26)], [(10, 2), (259, 26)]]
          (\<lambda>roi. Inr ''Strongbox'')) [''map'', ''strongbox''] [])
      = [PlaySound ''quiet_alert.mp3'' False]
   \<and> runOCR (synthetic_env (255, 255, 255, 255) [[(300, 2), (559, 26)], [(10, 2), (259, 26)]]
          (\<lambda>roi. Inr ''Strongbox'')) [''map''] [] = (Inr (), [])"
  using runOCR_alert_once
          [of "synthetic_env (255, 255, 255, 255) [[(300, 2), (559, 26)], [(10, 2), (259, 26)]]
                 (\<lambda>roi. Inr ''Strongbox'')" "[''map'', ''strongbox'']" "[]"]
        runOCR_alert_once
          [of "synthetic_env (255, 255, 255, 255) [[(300, 2), (559, 26)], [(10, 2), (259, 26)]]
                 (\<lambda>roi. Inr ''Strongbox'')" "[''map'']" "[]"]
        strongbox_match strongbox_no_match
  by (simp add: getScreenshot_synthetic strongbox_phrases)

text \<open>
  Claim C9, as the program has it. The loop over the regions has no handler. When the
  recognizer raises on a region and succeeded on the regions before it, \<open>getPhraseStrings\<close>
  raises that error: the strings of the earlier regions are lost, the later regions are
  not processed, and \<open>runOCR\<close> ends with the error and without an alert. When the
  recognizer succeeds on every region, each region contributes its string, in order.
\<close>

theorem recognition_error_propagates:
  assumes "getPhraseROIs env img = Inr rois"
  shows "((\<forall>r\<in>set rois. image_to_string env r = Inr (f r)) \<longrightarrow>
            getPhraseStrings env img = Inr (map f rois))
       \<and> (\<forall>pre roi post e.
            rois = pre @ roi # post \<and> (\<forall>r\<in>set pre. \<exists>t. image_to_string env r = Inr t)
              \<and> image_to_string env roi = Inl e
            \<longrightarrow> getPhraseStrings env img = Inl e
                \<and> (getScreenshot env 2 = Inr img \<longrightarrow>
                     runOCR env searchStrings played = (Inl e, played)))"
proof (intro conjI impI allI)
  assume "\<forall>r\<in>set rois. image_to_string env r = Inr (f r)"
  then show "getPhraseStrings env img = Inr (map f rois)"
    using phrases_loop_ok [of rois "image_to_string env" f "[]"]
    by (simp add: getPhraseStrings_eq [OF assms])
next
  fix pre roi post e
  assume h: "rois = pre @ roi # post \<and> (\<forall>r\<in>set pre. \<exists>t. image_to_string env r = Inr t)
              \<and> image_to_string env roi = Inl e"
  then have "phrases_loop (image_to_string env) (pre @ roi # post) [] = Inl e"
    by (intro phrases_loop_raise) simp_all
  with h show raised: "getPhraseStrings env img = Inl e"
    by (simp add: getPhraseStrings_eq [OF assms])
  assume "getScreenshot env 2 = Inr img"
  with raised show "runOCR env searchStrings played = (Inl e, played)"
    by (simp add: runOCR_def)
qed

theorem recognition_error_propagates_witness:
  "getPhraseStrings
      (synthetic_env (255, 255, 255, 255) [[(300, 2), (559, 26)], [(10, 2), (259, 26)]]
         (\<lambda>roi. if map length roi = replicate 25 250 then Inl TesseractError else Inr ''map''))
      (uniform_frame (255, 255, 255, 255)) = Inl TesseractError
   \<and> getPhraseStrings
      (synthetic_env (255, 255, 255, 255) [[(300, 2), (559, 26)], [(10, 2), (259, 26)]]
         (\<lambda>roi. Inr ''map''))
      (uniform_frame (255, 255, 255, 255)) = Inr [''map'', ''map'']"
  using recognition_error_propagates
          [OF white_rois
                [of "\<lambda>roi. if map length roi = replicate 25 250 then Inl TesseractError
                           else Inr ''map''"],
              THEN conjunct2, rule_format,
              where pre = "[]" and roi = "replicate 25 (replicate 250 255)"
                and post = "[replicate 25 (replicate 260 255)]" and e = TesseractError]
        recognition_error_propagates
          [OF white_rois [of "\<lambda>roi. Inr ''map''"], where f = "\<lambda>roi. ''map''", THEN conjunct1]
  by (simp add: synthetic_recognize)

text \<open>
  The claim as it was stated fails: with two regions, a recognizer that raises on the
  first and reads \<open>map\<close> on the second, and the watch-list entry \<open>map\<close>, the run
  ends with the recognizer's error and no alert.
\<close>

theorem getPhraseStrings_aborts:
  "getPhraseStrings
      (synthetic_env (255, 255, 255, 255) [[(300, 2), (559, 26)], [(10, 2), (259, 26)]]
         (\<lambda>roi. if map length roi = replicate 25 250 then Inl TesseractError else Inr ''map''))
      (uniform_frame (255, 255, 255, 255)) = Inl TesseractError
   \<and> runOCR
      (synthetic_env (255, 255, 255, 255) [[(300, 2), (559, 26)], [(10, 2), (259, 26)]]
         (\<lambda>roi. if map length roi = replicate 25 250 then Inl TesseractError else Inr ''map''))
      [''map''] [] = (Inl TesseractError, [])"
  by (simp add: runOCR_def getScreenshot_synthetic getPhraseStrings_eq [OF white_rois]
        synthetic_recognize)

section \<open>Blank lines of the watch-list\<close>

lemma empty_meets_cutoff: "meets_cutoff ([], [])"
  by (simp add: meets_cutoff_def lower_def lv_ratio_empty)

text \<open>Two line feeds in a row leave an empty line, whatever stands around them.\<close>

lemma splitlines_from_blank:
  "[] \<in> set (splitlines_from cur (pre @ CHR 0x0A # CHR 0x0A # post))"
proof (induction pre arbitrary: cur rule: length_induct)
  case (1 pre)
  have IH: "[] \<in> set (splitlines_from x (ys @ CHR 0x0A # CHR 0x0A # post))"
    if "length ys < length pre" for ys x
    using "1.IH" that by blast
  show ?case
  proof (cases pre)
    case Nil
    then show ?thesis by (simp add: is_linebreak_def)
  next
    case (Cons c cs)
    have "\<exists>ys. length ys < length pre \<and>
            splitlines_from cur (pre @ CHR 0x0A # CHR 0x0A # post) =
              rev cur # splitlines_from [] (ys @ CHR 0x0A # CHR 0x0A # post)
          \<or> splitlines_from cur (pre @ CHR 0x0A # CHR 0x0A # post) =
              rev cur # splitlines_from [] (CHR 0x0A # post)
          \<or> (\<exists>cur'. splitlines_from cur (pre @ CHR 0x0A # CHR 0x0A # post) =
              splitlines_from cur' (cs @ CHR 0x0A # CHR 0x0A # post))"
    proof (cases "(of_char c :: nat) = 13")
      case True
      note cr = True
      show ?thesis
      proof (cases cs)
        case Nil
        with cr Cons show ?thesis by simp
      next
        case (Cons d ds)
        note cs = Cons
        show ?thesis
        proof (cases "(of_char d :: nat) = 10")
          case True
          have "splitlines_from cur (pre @ CHR 0x0A # CHR 0x0A # post) =
              rev cur # splitlines_from [] (ds @ CHR 0x0A # CHR 0x0A # post)"
            unfolding \<open>pre = c # cs\<close> cs using cr True by simp
          moreover have "length ds < length pre"
            unfolding \<open>pre = c # cs\<close> cs by simp
          ultimately show ?thesis by blast
        next
          case False
          have "splitlines_from cur ((c # d # ds) @ CHR 0x0A # CHR 0x0A # post) =
              rev cur # splitlines_from [] ((d # ds) @ CHR 0x0A # CHR 0x0A # post)"
            using cr False by (simp del: splitlines_from.simps add: splitlines_from.simps(2) [of cur c])
          moreover have "length (d # ds) < length pre"
            unfolding \<open>pre = c # cs\<close> cs by simp
          ultimately show ?thesis
            unfolding \<open>pre = c # cs\<close> cs by blast
        qed
      qed
    next
      case False
      show ?thesis
      proof (cases "is_linebreak c")
        case True
        have "splitlines_from cur ((c # cs) @ CHR 0x0A # CHR 0x0A # post) =
              rev cur # splitlines_from [] (cs @ CHR 0x0A # CHR 0x0A # post)"
          using False True by (simp del: splitlines_from.simps add: splitlines_from.simps(2) [of cur c])
        moreover have "length cs < length pre"
          unfolding \<open>pre = c # cs\<close> by simp
        ultimately show ?thesis
          unfolding \<open>pre = c # cs\<close> by blast
      next
        case nobreak: False
        have "splitlines_from cur ((c # cs) @ CHR 0x0A # CHR 0x0A # post) =
              splitlines_from (c # cur) (cs @ CHR 0x0A # CHR 0x0A # post)"
          using False nobreak by (simp del: splitlines_from.simps add: splitlines_from.simps(2) [of cur c])
        then show ?thesis
          unfolding \<open>pre = c # cs\<close> by blast
      qed
    qed
    then consider
      ys where "length ys < length pre"
        "splitlines_from cur (pre @ CHR 0x0A # CHR 0x0A # post) =
              rev cur # splitlines_from [] (ys @ CHR 0x0A # CHR 0x0A # post)"
      | "splitlines_from cur (pre @ CHR 0x0A # CHR 0x0A # post) =
              rev cur # splitlines_from [] (CHR 0x0A # post)"
      | cur' where "splitlines_from cur (pre @ CHR 0x0A # CHR 0x0A # post) =
              splitlines_from cur' (cs @ CHR 0x0A # CHR 0x0A # post)"
      by blast
    then show ?thesis
    proof cases
      case 1
      with IH [of ys "[]"] show ?thesis by simp
    next
      case 2
      then show ?thesis by (simp add: is_linebreak_def)
    next
      case 3
      with IH [of cs cur'] Cons show ?thesis by simp
    qed
  qed
qed

lemma blank_phrases:
  "getPhraseStrings
      (synthetic_env (255, 255, 255, 255) [[(300, 2), (559, 26)], [(10, 2), (259, 26)]]
        (\<lambda>roi. Inr []))
      (uniform_frame (255, 255, 255, 255)) = Inr [[], []]"
  by (simp add: getPhraseStrings_eq [OF white_rois] synthetic_recognize)

lemma watch_file:
  "getSearchStrings
      [''config/search_strings.txt'' \<mapsto> ''map'' @ CHR 0x0A # CHR 0x0A # ''strongbox'']
      ''config/search_strings.txt'' = Inr [''map'', [], ''strongbox'']"
  by (simp add: getSearchStrings_def splitlines_def is_linebreak_def)

text \<open>
  Claim C10. The ratio of two empty strings is 1, so the empty candidate matches the
  empty watch-list entry, and so does every candidate list with an empty string against
  every watch-list with one. The loader keeps a blank line of the file as an empty
  entry. A run that recognizes an empty text in some region, with a watch-list that has
  an empty entry, raises the alert.
\<close>

theorem empty_phrase_matches_blank_line:
  "lv_ratio [] [] = 1
   \<and> hasMatchingPhrase [[]] [[]]
   \<and> ([] \<in> set phrases \<and> [] \<in> set searchStrings \<longrightarrow> hasMatchingPhrase phrases searchStrings)
   \<and> (files fileName = Some (pre @ CHR 0x0A # CHR 0x0A # post) \<longrightarrow>
        (\<exists>ss. getSearchStrings files fileName = Inr ss \<and> [] \<in> set ss))
   \<and> (getScreenshot env 2 = Inr img \<and> getPhraseStrings env img = Inr phrases
        \<and> [] \<in> set phrases \<and> [] \<in> set searchStrings \<longrightarrow>
        runOCR env searchStrings played = (Inr (), played @ [PlaySound ''quiet_alert.mp3'' False]))"
proof -
  have match: "hasMatchingPhrase ps ws" if "[] \<in> set ps" "[] \<in> set ws" for ps ws
    using that empty_meets_cutoff by (auto simp: hasMatchingPhrase_iff)
  have "hasMatchingPhrase [[]] [[]]"
    by (rule match) simp_all
  moreover have "files fileName = Some (pre @ CHR 0x0A # CHR 0x0A # post) \<longrightarrow>
        (\<exists>ss. getSearchStrings files fileName = Inr ss \<and> [] \<in> set ss)"
    by (simp add: getSearchStrings_def splitlines_def splitlines_from_blank)
  moreover have "getScreenshot env 2 = Inr img \<and> getPhraseStrings env img = Inr phrases
        \<and> [] \<in> set phrases \<and> [] \<in> set searchStrings \<longrightarrow>
        runOCR env searchStrings played = (Inr (), played @ [PlaySound ''quiet_alert.mp3'' False])"
    using match [of phrases searchStrings] by (simp add: runOCR_def)
  ultimately show ?thesis
    using match [of phrases searchStrings] by (simp add: lv_ratio_empty)
qed

theorem empty_phrase_matches_blank_line_witness:
  "getSearchStrings
      [''config/search_strings.txt'' \<mapsto> ''map'' @ CHR 0x0A # CHR 0x0A # ''strongbox'']
      ''config/search_strings.txt'' = Inr [''map'', [], ''strongbox'']
   \<and> runOCR (synthetic_env (255, 255, 255, 255) [[(300, 2), (559, 26)], [(10, 2), (259, 26)]]
        (\<lambda>roi. Inr [])) [''map'', [], ''strongbox''] []
      = (Inr (), [PlaySound ''quiet_alert.mp3'' False])"
  using empty_phrase_matches_blank_line
          [of "[[], []]" "[''map'', [], ''strongbox'']"
              "[''config/search_strings.txt'' \<mapsto> ''map'' @ CHR 0x0A # CHR 0x0A # ''strongbox'']"
              "''config/search_strings.txt''" "''map''" "''strongbox''"
              "synthetic_env (255, 255, 255, 255) [[(300, 2), (559, 26)], [(10, 2), (259, 26)]]
                 (\<lambda>roi. Inr [])"
              "uniform_frame (255, 255, 255, 255)" "[]"]
        watch_file
  by (simp add: getScreenshot_synthetic blank_phrases)

end
